theory Spec2Isabelle
  imports Complex_Main
begin

section \<open>JavaScript strings\<close>

text \<open>
  A JavaScript string is a sequence of UTF-16 code units, modelled as the list
  of their numbers. \<open>cu c\<close> is the code unit of an ASCII character and \<open>js s\<close>
  the JavaScript string of a literal.
\<close>

type_synonym jstring = "nat list"

definition cu :: "char \<Rightarrow> nat" where
  "cu c = of_char c"

definition js :: "string \<Rightarrow> jstring" where
  "js s = map cu s"

definition in_rng :: "nat \<Rightarrow> nat \<Rightarrow> nat \<Rightarrow> bool" where
  "in_rng lo hi c = (lo \<le> c \<and> c \<le> hi)"

text \<open>
  Canonicalisation of the \<open>i\<close> flag (no \<open>u\<close> flag): \<open>toUpperCase\<close> of one code
  unit. Only the letters a-z (97-122) are mapped to A-Z (65-90): the classes of
  the source's patterns hold ASCII characters only, and a code unit from 128 on
  is never mapped to one below 128.
\<close>

definition to_upper :: "nat \<Rightarrow> nat" where
  "to_upper c = (if in_rng 97 122 c then c - 32 else c)"

definition to_lower :: "nat \<Rightarrow> nat" where
  "to_lower c = (if in_rng 65 90 c then c + 32 else c)"

text \<open>
  White space and line terminators, what \<open>\s\<close> and \<open>trim\<close> strip: TAB, LF, VT,
  FF, CR, SP, NBSP, U+1680, U+2000 to U+200A, U+2028, U+2029, U+202F, U+205F,
  U+3000, U+FEFF.
\<close>

definition is_space :: "nat \<Rightarrow> bool" where
  "is_space c = (in_rng 9 13 c \<or> c = 32 \<or> c = 160 \<or> c = 5760 \<or> in_rng 8192 8202 c
     \<or> c = 8232 \<or> c = 8233 \<or> c = 8239 \<or> c = 8287 \<or> c = 12288 \<or> c = 65279)"

text \<open>Line terminators, what \<open>.\<close> does not match: LF, CR, U+2028, U+2029.\<close>

definition is_line_terminator :: "nat \<Rightarrow> bool" where
  "is_line_terminator c = (c = 10 \<or> c = 13 \<or> c = 8232 \<or> c = 8233)"

text \<open>Word characters, for \<open>\b\<close>: a-z, A-Z, 0-9 and the underscore.\<close>

definition is_word_char :: "nat \<Rightarrow> bool" where
  "is_word_char c = (in_rng 97 122 c \<or> in_rng 65 90 c \<or> in_rng 48 57 c \<or> c = 95)"

text \<open>\<open>String.prototype.trim\<close>.\<close>

definition trim :: "jstring \<Rightarrow> jstring" where
  "trim s = rev (dropWhile is_space (rev (dropWhile is_space s)))"

text \<open>\<open>s.substring(0, n)\<close>.\<close>

definition substring0 :: "jstring \<Rightarrow> nat \<Rightarrow> jstring" where
  "substring0 s n = take n s"

text \<open>\<open>s.split('\n')\<close>: the empty string gives one empty line.\<close>

fun split_nl :: "jstring \<Rightarrow> jstring list" where
  "split_nl [] = [[]]"
| "split_nl (c # cs) =
     (if c = 10 then [] # split_nl cs
      else (case split_nl cs of [] \<Rightarrow> [[c]] | l # ls \<Rightarrow> (c # l) # ls))"

section \<open>Regular expressions\<close>

text \<open>
  The regular expressions of the source, as syntax trees, and a backtracking
  matcher with the priorities of ECMAScript: greedy quantifiers that give
  characters back one at a time, capture groups, positive lookahead (atomic, its
  captures kept), \<open>\b\<close> and \<open>^\<close>. Quantifiers range over character classes, which
  is all the source uses.
\<close>

datatype catom = Ch nat | Rng nat nat | Dig | Spc

datatype cclass = Dot | Set "catom list" | NotSet "catom list"

fun atom_match :: "bool \<Rightarrow> catom \<Rightarrow> nat \<Rightarrow> bool" where
  "atom_match ic (Ch a) c = (if ic then to_upper c = to_upper a else c = a)"
| "atom_match ic (Rng lo hi) c =
     (in_rng lo hi c \<or> (ic \<and> (in_rng lo hi (to_upper c) \<or> in_rng lo hi (to_lower c))))"
| "atom_match ic Dig c = in_rng 48 57 c"
| "atom_match ic Spc c = is_space c"

fun class_match :: "bool \<Rightarrow> cclass \<Rightarrow> nat \<Rightarrow> bool" where
  "class_match ic Dot c = (\<not> is_line_terminator c)"
| "class_match ic (Set as) c = list_ex (\<lambda>a. atom_match ic a c) as"
| "class_match ic (NotSet as) c = (\<not> list_ex (\<lambda>a. atom_match ic a c) as)"

text \<open>
  \<open>Rep cl lo hi\<close> is \<open>cl{lo,hi}\<close> (\<open>hi = None\<close>: unbounded). \<open>Close n b\<close> is not
  source syntax: it is the matcher's note, left on its stack by \<open>Grp n\<close>, that
  group \<open>n\<close> opened at index \<open>b\<close> ends here.
\<close>

datatype regex =
    One cclass
  | Rep cclass nat "nat option"
  | Seq regex regex
  | Grp nat regex
  | Look regex
  | WordB
  | Bol
  | Close nat nat

text \<open>
  The matcher's state: the input still to read, the character before it (for
  \<open>\b\<close> and \<open>^\<close>), its index in the whole string, and the captures made so far
  (group, start index, end index), newest first.
\<close>

datatype mstate = MState (rest: jstring) (prev: "nat option") (pos: nat)
  (caps: "(nat \<times> nat \<times> nat) list")

definition at_boundary :: "nat option \<Rightarrow> jstring \<Rightarrow> bool" where
  "at_boundary pv xs =
     ((case pv of None \<Rightarrow> False | Some c \<Rightarrow> is_word_char c)
      \<noteq> (case xs of [] \<Rightarrow> False | c # _ \<Rightarrow> is_word_char c))"

fun sz :: "regex \<Rightarrow> nat" where
  "sz (Seq a b) = Suc (sz a + sz b)"
| "sz (Grp n r) = Suc (Suc (sz r))"
| "sz (Look r) = Suc (sz r)"
| "sz r = 1"

text \<open>
  \<open>match ic k s\<close> matches the sequence \<open>k\<close> (the current node and everything
  that has to follow it) at state \<open>s\<close>; \<open>ic\<close> is the \<open>i\<close> flag. The first
  alternative that lets the whole of \<open>k\<close> succeed wins.
\<close>

function match :: "bool \<Rightarrow> regex list \<Rightarrow> mstate \<Rightarrow> mstate option" where
  "match ic [] s = Some s"
| "match ic (One cl # k) s =
     (case rest s of
        [] \<Rightarrow> None
      | x # xs \<Rightarrow>
          if class_match ic cl x then match ic k (MState xs (Some x) (Suc (pos s)) (caps s))
          else None)"
| "match ic (Rep cl lo hi # k) s =
     (case rest s of
        [] \<Rightarrow> if lo = 0 then match ic k s else None
      | x # xs \<Rightarrow>
          if hi \<noteq> Some 0 \<and> class_match ic cl x then
            (case match ic (Rep cl (lo - 1) (map_option (\<lambda>h. h - 1) hi) # k)
                    (MState xs (Some x) (Suc (pos s)) (caps s)) of
               Some r \<Rightarrow> Some r
             | None \<Rightarrow> if lo = 0 then match ic k s else None)
          else if lo = 0 then match ic k s else None)"
| "match ic (Seq a b # k) s = match ic (a # b # k) s"
| "match ic (Grp n r # k) s = match ic (r # Close n (pos s) # k) s"
| "match ic (Close n b # k) s =
     match ic k (MState (rest s) (prev s) (pos s) ((n, b, pos s) # caps s))"
| "match ic (Look r # k) s =
     (case match ic [r] s of
        None \<Rightarrow> None
      | Some s' \<Rightarrow> match ic k (MState (rest s) (prev s) (pos s) (caps s')))"
| "match ic (WordB # k) s = (if at_boundary (prev s) (rest s) then match ic k s else None)"
| "match ic (Bol # k) s = (if prev s = None then match ic k s else None)"
  by pat_completeness auto
termination
  by (relation "measures [\<lambda>(ic, k, s). length (rest s), \<lambda>(ic, k, s). sum_list (map sz k)]") auto

text \<open>
  A regular expression object: its syntax tree and its flags (\<open>g\<close>, \<open>i\<close>).
\<close>

datatype regexp = RegExp (body: regex) (flags: string)

definition ignoreCase :: "regexp \<Rightarrow> bool" where
  "ignoreCase re = (CHR ''i'' \<in> set (flags re))"

definition global :: "regexp \<Rightarrow> bool" where
  "global re = (CHR ''g'' \<in> set (flags re))"

text \<open>
  The search of \<open>exec\<close>: try the pattern at the current index, then one character
  further, up to the end of the string. The result is the index where the match
  starts and the state at its end.
\<close>

fun exec_from :: "regexp \<Rightarrow> jstring \<Rightarrow> nat option \<Rightarrow> nat \<Rightarrow> (nat \<times> mstate) option" where
  "exec_from re [] pv i =
     (case match (ignoreCase re) [body re] (MState [] pv i []) of
        None \<Rightarrow> None
      | Some s \<Rightarrow> Some (i, s))"
| "exec_from re (x # xs) pv i =
     (case match (ignoreCase re) [body re] (MState (x # xs) pv i []) of
        Some s \<Rightarrow> Some (i, s)
      | None \<Rightarrow> exec_from re xs (Some x) (Suc i))"

text \<open>\<open>match[n]\<close> of a match on \<open>text\<close>: the last capture of group \<open>n\<close>, or undefined.\<close>

definition group :: "jstring \<Rightarrow> mstate \<Rightarrow> nat \<Rightarrow> jstring option" where
  "group text s n =
     (case map_of (caps s) n of
        None \<Rightarrow> None
      | Some (b, e) \<Rightarrow> Some (take (e - b) (drop b text)))"

text \<open>\<open>str.match(re)\<close> for a regular expression without the \<open>g\<close> flag.\<close>

definition js_match :: "jstring \<Rightarrow> regexp \<Rightarrow> (nat \<times> mstate) option" where
  "js_match str re = exec_from re str None 0"

text \<open>
  \<open>str.replace(re, '')\<close>. Without \<open>g\<close> the first match is cut out. With \<open>g\<close> every
  match is, searching on from the end of the last one; after an empty match the
  search moves one character on, as \<open>lastIndex\<close> does.
\<close>

function replace_all :: "regexp \<Rightarrow> jstring \<Rightarrow> nat option \<Rightarrow> jstring" where
  "replace_all re xs pv =
     (case exec_from re xs pv 0 of
        None \<Rightarrow> xs
      | Some (i, s) \<Rightarrow>
          if length (rest s) < length xs then take i xs @ replace_all re (rest s) (prev s)
          else (case xs of [] \<Rightarrow> [] | y # ys \<Rightarrow> y # replace_all re ys (Some y)))"
  by pat_completeness auto
termination
  by (relation "measure (\<lambda>(re, xs, pv). length xs)") auto

definition replace_first :: "regexp \<Rightarrow> jstring \<Rightarrow> jstring" where
  "replace_first re str =
     (case exec_from re str None 0 of
        None \<Rightarrow> str
      | Some (i, s) \<Rightarrow> take i str @ rest s)"

definition js_replace :: "jstring \<Rightarrow> regexp \<Rightarrow> jstring" where
  "js_replace str re = (if global re then replace_all re str None else replace_first re str)"

section \<open>Numbers\<close>

text \<open>
  A JavaScript number is a binary64 float. The numbers of this program are read
  by \<open>parseFloat\<close> from a capture of \<open>[0-9.]+\<close>, so they are NaN, a finite
  value that is not negative, or Infinity (from 309 digits on). A finite value is
  modelled by the rational it denotes.
\<close>

datatype jsnum = NaN | Infinity | Num rat

fun bitlen :: "nat \<Rightarrow> nat" where
  "bitlen n = (if n = 0 then 0 else Suc (bitlen (n div 2)))"

declare bitlen.simps [simp del]

definition pow2 :: "int \<Rightarrow> rat" where
  "pow2 e = (if 0 \<le> e then 2 ^ nat e else 1 / 2 ^ nat (- e))"

text \<open>
  \<open>to_double n d\<close> is the binary64 value nearest to the fraction \<open>n / d\<close>
  (\<open>d > 0\<close>), ties to even. \<open>e\<close> is the binary exponent of \<open>n / d\<close>
  (\<open>2 ^ e \<le> n / d < 2 ^ (e + 1)\<close>), not below -1022; the value is rounded to a
  multiple \<open>m\<close> of \<open>2 ^ (e - 52)\<close>, which leaves 53 significant bits; from
  \<open>2 ^ 1024\<close> on the result is Infinity.
\<close>

definition to_double :: "nat \<Rightarrow> nat \<Rightarrow> jsnum" where
  "to_double n d =
     (if n = 0 then Num 0
      else let e = max (if d \<le> n then int (bitlen (n div d)) - 1
                        else - int (bitlen ((d + n - 1) div n - 1))) (- 1022);
               N = (if e \<le> 52 then n * 2 ^ nat (52 - e) else n);
               D = (if e \<le> 52 then d else d * 2 ^ nat (e - 52));
               f = N div D;
               r = N mod D;
               m = (if 2 * r < D then f else if D < 2 * r then f + 1
                    else if even f then f else f + 1);
               v = of_nat m * pow2 (e - 52)
           in if 2 ^ 1024 \<le> v then Infinity else Num v)"

definition is_digit :: "nat \<Rightarrow> bool" where
  "is_digit c = in_rng 48 57 c"

definition digits_val :: "jstring \<Rightarrow> nat" where
  "digits_val ds = foldl (\<lambda>a c. 10 * a + (c - 48)) 0 ds"

text \<open>
  \<open>parseFloat\<close>: leading white space is skipped, then the longest prefix
  \<open>digits\<close>, \<open>digits.\<close>, \<open>digits.digits\<close> or \<open>.digits\<close> is the number; with no
  digit at all the result is NaN. With \<open>k\<close> digits after the point the number
  is the digits read as one integer, over \<open>10 ^ k\<close>. Signs, exponents and the
  word Infinity do not occur in a capture of \<open>[0-9.]+\<close> and are left out.
\<close>

definition parseFloat :: "jstring \<Rightarrow> jsnum" where
  "parseFloat str =
     (let s = dropWhile is_space str;
          ip = takeWhile is_digit s;
          r = dropWhile is_digit s;
          fp = (case r of [] \<Rightarrow> [] | c # cs \<Rightarrow> if c = 46 then takeWhile is_digit cs else [])
      in if ip = [] \<and> fp = [] then NaN
         else to_double (digits_val (ip @ fp)) (10 ^ length fp))"

text \<open>\<open>x <= c\<close> for a number \<open>x\<close> and a finite constant \<open>c\<close>: false for NaN.\<close>

fun num_le :: "jsnum \<Rightarrow> rat \<Rightarrow> bool" where
  "num_le NaN c = False"
| "num_le Infinity c = False"
| "num_le (Num r) c = (r \<le> c)"

section \<open>The record parser: \<open>parseStockData\<close>\<close>

record stock =
  ticker :: jstring
  company :: jstring
  marketCap :: jstring
  extractedAt :: jstring

definition lit :: "char \<Rightarrow> regex" where
  "lit c = One (Set [Ch (cu c)])"

fun seqs :: "regex \<Rightarrow> regex list \<Rightarrow> regex" where
  "seqs r [] = r"
| "seqs r (x # xs) = Seq r (seqs x xs)"

definition upper_AZ :: cclass where
  "upper_AZ = Set [Rng (cu CHR ''A'') (cu CHR ''Z'')]"

definition digit_or_dot :: cclass where
  "digit_or_dot = Set [Rng (cu CHR ''0'') (cu CHR ''9''), Ch (cu CHR ''.'')]"

definition billion :: "regex list" where
  "billion = map lit ''billion''"

text \<open>
  The four patterns of the source, all with the flags \<open>gi\<close>:
  \<^verbatim>\<open>/([A-Z]{1,5})\s*\(([^)]+)\)[^$]*\$([0-9.]+)\s*billion/gi\<close>,
  \<^verbatim>\<open>/([^(]+)\s*\(([A-Z]{1,5})\)[^$]*\$([0-9.]+)\s*billion/gi\<close>,
  \<^verbatim>\<open>/([A-Z]{1,5}):\s*([^-]+)\s*-[^$]*\$([0-9.]+)\s*billion/gi\<close>,
  \<^verbatim>\<open>/(?=.*([A-Z]{2,5}))(?=.*\$([0-9.]+)\s*billion)(.+)/gi\<close>.
\<close>

definition pattern1 :: regexp where
  "pattern1 = RegExp
     (seqs (Grp 1 (Rep upper_AZ 1 (Some 5)))
        ([Rep (Set [Spc]) 0 None, lit CHR ''('', Grp 2 (Rep (NotSet [Ch (cu CHR '')'')]) 1 None),
          lit CHR '')'', Rep (NotSet [Ch (cu CHR ''$'')]) 0 None, lit CHR ''$'',
          Grp 3 (Rep digit_or_dot 1 None), Rep (Set [Spc]) 0 None] @ billion))
     ''gi''"

definition pattern2 :: regexp where
  "pattern2 = RegExp
     (seqs (Grp 1 (Rep (NotSet [Ch (cu CHR ''('')]) 1 None))
        ([Rep (Set [Spc]) 0 None, lit CHR ''('', Grp 2 (Rep upper_AZ 1 (Some 5)),
          lit CHR '')'', Rep (NotSet [Ch (cu CHR ''$'')]) 0 None, lit CHR ''$'',
          Grp 3 (Rep digit_or_dot 1 None), Rep (Set [Spc]) 0 None] @ billion))
     ''gi''"

definition pattern3 :: regexp where
  "pattern3 = RegExp
     (seqs (Grp 1 (Rep upper_AZ 1 (Some 5)))
        ([lit CHR '':'', Rep (Set [Spc]) 0 None, Grp 2 (Rep (NotSet [Ch (cu CHR ''-'')]) 1 None),
          Rep (Set [Spc]) 0 None, lit CHR ''-'', Rep (NotSet [Ch (cu CHR ''$'')]) 0 None, lit CHR ''$'',
          Grp 3 (Rep digit_or_dot 1 None), Rep (Set [Spc]) 0 None] @ billion))
     ''gi''"

definition pattern4 :: regexp where
  "pattern4 = RegExp
     (seqs (Look (seqs (Rep Dot 0 None) [Grp 1 (Rep upper_AZ 2 (Some 5))]))
        [Look (seqs (Rep Dot 0 None)
           ([lit CHR ''$'', Grp 2 (Rep digit_or_dot 1 None), Rep (Set [Spc]) 0 None] @ billion)),
         Grp 3 (Rep Dot 1 None)])
     ''gi''"

definition patterns :: "regexp list" where
  "patterns = [pattern1, pattern2, pattern3, pattern4]"

text \<open>
  \<^verbatim>\<open>pattern.source.includes('(?=.*')\<close>, read off the syntax tree: some lookahead of
  the pattern starts with \<open>.*\<close>.
\<close>

fun starts_dot_star :: "regex \<Rightarrow> bool" where
  "starts_dot_star (Rep cl lo hi) = (cl = Dot \<and> lo = 0 \<and> hi = None)"
| "starts_dot_star (Seq a b) = starts_dot_star a"
| "starts_dot_star r = False"

fun has_lookahead :: "regex \<Rightarrow> bool" where
  "has_lookahead (Look r) = (starts_dot_star r \<or> has_lookahead r)"
| "has_lookahead (Seq a b) = (has_lookahead a \<or> has_lookahead b)"
| "has_lookahead (Grp n r) = has_lookahead r"
| "has_lookahead r = False"

text \<open>
  The regular expressions used inside the loops:
  \<^verbatim>\<open>/\b([A-Z]{2,5})\b/\<close>, \<^verbatim>\<open>/\$([0-9.]+)\s*billion/\<close> (and with \<open>i\<close> in the
  fallback), \<^verbatim>\<open>/\([^)]*\)/g\<close>, \<^verbatim>\<open>/\$[0-9.]+\s*billion/g\<close>, \<^verbatim>\<open>/[^A-Z]/g\<close>,
  \<^verbatim>\<open>/^\d+\.\s*/\<close>.
\<close>

definition tickerRe :: regexp where
  "tickerRe = RegExp (seqs WordB [Grp 1 (Rep upper_AZ 2 (Some 5)), WordB]) []"

definition capRe :: regexp where
  "capRe = RegExp
     (seqs (lit CHR ''$'') ([Grp 1 (Rep digit_or_dot 1 None), Rep (Set [Spc]) 0 None] @ billion)) []"

definition capReI :: regexp where
  "capReI = RegExp (body capRe) ''i''"

definition parenRe :: regexp where
  "parenRe = RegExp (seqs (lit CHR ''('') [Rep (NotSet [Ch (cu CHR '')'')]) 0 None, lit CHR '')'']) ''g''"

definition capReG :: regexp where
  "capReG = RegExp
     (seqs (lit CHR ''$'') ([Rep digit_or_dot 1 None, Rep (Set [Spc]) 0 None] @ billion)) ''g''"

definition notUpperRe :: regexp where
  "notUpperRe = RegExp (One (NotSet [Rng (cu CHR ''A'') (cu CHR ''Z'')])) ''g''"

definition enumRe :: regexp where
  "enumRe = RegExp (seqs Bol [Rep (Set [Dig]) 1 None, lit CHR ''.'', Rep (Set [Spc]) 0 None]) []"

text \<open>\<open>stocks.find(s => s.ticker === ticker)\<close> finds something.\<close>

definition has_ticker :: "stock list \<Rightarrow> jstring \<Rightarrow> bool" where
  "has_ticker stocks t = list_ex (\<lambda>s. ticker s = t) stocks"

text \<open>
  Lines 102-118: the candidate \<open>(ticker, company, marketCap)\<close> of one match;
  \<open>None\<close> is \<open>undefined\<close>. In the lookahead branch \<open>match[3]\<close> is the rest of the
  line (group 3 takes part in every match of pattern 4).
\<close>

definition candidate :: "regexp \<Rightarrow> jstring \<Rightarrow> mstate \<Rightarrow>
    jstring option \<times> jstring option \<times> jstring option" where
  "candidate pat text mt =
     (if has_lookahead (body pat) then
        (case group text mt 3 of
           None \<Rightarrow> (None, None, None)
         | Some line \<Rightarrow>
             (case (js_match line tickerRe, js_match line capRe) of
                (Some tm, Some cm) \<Rightarrow>
                  (group line (snd tm) 1,
                   Some (trim (js_replace (js_replace line parenRe) capReG)),
                   group line (snd cm) 1)
              | _ \<Rightarrow> (None, None, None)))
      else (map_option trim (group text mt 1), map_option trim (group text mt 2),
            map_option trim (group text mt 3)))"

text \<open>
  Lines 120-132: the small-cap filter, the normalisation, the check for a
  ticker already accepted, and the push. \<open>now n\<close> is what
  \<open>new Date().toISOString()\<close> gives at the push of record number \<open>n\<close>.
\<close>

definition accept :: "(nat \<Rightarrow> jstring) \<Rightarrow> jstring option \<times> jstring option \<times> jstring option \<Rightarrow>
    stock list \<Rightarrow> stock list" where
  "accept now cand stocks =
     (case cand of
        (Some ticker0, Some company0, Some marketCap0) \<Rightarrow>
          if ticker0 \<noteq> [] \<and> company0 \<noteq> [] \<and> marketCap0 \<noteq> []
             \<and> num_le (parseFloat marketCap0) 2 then
            (let ticker1 = js_replace ticker0 notUpperRe;
                 company1 = trim (js_replace company0 enumRe)
             in if \<not> has_ticker stocks ticker1 then
                  stocks @ [\<lparr>ticker = ticker1, company = substring0 company1 50,
                             marketCap = js ''$'' @ marketCap0 @ js ''B'',
                             extractedAt = now (length stocks)\<rparr>]
                else stocks)
          else stocks
      | _ \<Rightarrow> stocks)"

text \<open>
  Lines 100-133, the \<open>while\<close> loop of one pattern. \<open>xs\<close>, \<open>pv\<close> and \<open>i\<close> are the
  text from \<open>lastIndex\<close> on, the character before it and \<open>lastIndex\<close> itself.
  \<open>exec\<close> runs before the test of \<open>stocks.length\<close>. A match that ends where the
  search began would leave \<open>lastIndex\<close> in place and the loop would not end: the
  result is then \<open>None\<close>.
\<close>

function exec_loop :: "(nat \<Rightarrow> jstring) \<Rightarrow> regexp \<Rightarrow> jstring \<Rightarrow> jstring \<Rightarrow> nat option \<Rightarrow> nat \<Rightarrow>
    stock list \<Rightarrow> stock list option" where
  "exec_loop now pat text xs pv i stocks =
     (case exec_from pat xs pv i of
        None \<Rightarrow> Some stocks
      | Some (b, mt) \<Rightarrow>
          if length stocks < 15 then
            (if length (rest mt) < length xs then
               exec_loop now pat text (rest mt) (prev mt) (pos mt)
                 (accept now (candidate pat text mt) stocks)
             else None)
          else Some stocks)"
  by pat_completeness auto
termination
  by (relation "measure (\<lambda>(now, pat, text, xs, pv, i, stocks). length xs)") auto

text \<open>Lines 99-134, the \<open>for\<close> loop over the patterns.\<close>

fun strategy_pass :: "(nat \<Rightarrow> jstring) \<Rightarrow> jstring \<Rightarrow> regexp list \<Rightarrow> stock list \<Rightarrow>
    stock list option" where
  "strategy_pass now text [] stocks = Some stocks"
| "strategy_pass now text (pat # pats) stocks =
     (case exec_loop now pat text text None 0 stocks of
        None \<Rightarrow> None
      | Some stocks' \<Rightarrow> strategy_pass now text pats stocks')"

text \<open>Lines 143-158, one line of the fallback.\<close>

definition fallback_line :: "(nat \<Rightarrow> jstring) \<Rightarrow> jstring \<Rightarrow> stock list \<Rightarrow> stock list" where
  "fallback_line now line stocks =
     (case (js_match line tickerRe, js_match line capReI) of
        (Some tm, Some cm) \<Rightarrow>
          (case (group line (snd tm) 1, group line (snd cm) 1) of
             (Some ticker0, Some marketCap0) \<Rightarrow>
               if num_le (parseFloat marketCap0) 2 \<and> \<not> has_ticker stocks ticker0 then
                 stocks @ [\<lparr>ticker = ticker0, company = js ''Company for '' @ ticker0,
                            marketCap = js ''$'' @ marketCap0 @ js ''B'',
                            extractedAt = now (length stocks)\<rparr>]
               else stocks
           | _ \<Rightarrow> stocks)
      | _ \<Rightarrow> stocks)"

text \<open>Lines 140-159, the loop over the lines with its \<open>break\<close>.\<close>

fun fallback_loop :: "(nat \<Rightarrow> jstring) \<Rightarrow> jstring list \<Rightarrow> stock list \<Rightarrow> stock list" where
  "fallback_loop now [] stocks = stocks"
| "fallback_loop now (line # lines) stocks =
     (if 10 \<le> length stocks then stocks
      else fallback_loop now lines (fallback_line now line stocks))"

text \<open>\<open>parseStockData\<close>; \<open>None\<close> would be a call that does not return.\<close>

definition parseStockData :: "(nat \<Rightarrow> jstring) \<Rightarrow> jstring \<Rightarrow> stock list option" where
  "parseStockData now responseText =
     (case strategy_pass now responseText patterns [] of
        None \<Rightarrow> None
      | Some stocks \<Rightarrow>
          Some (if length stocks < 5 then fallback_loop now (split_nl responseText) stocks
                else stocks))"

section \<open>The dataset writer: \<open>saveToCSV\<close>\<close>

text \<open>
  An awaited call either throws (rejects) with an error message or resolves
  with a value.
\<close>

datatype 'a outcome = Throws jstring | Resolves 'a

text \<open>
  The CSV file as its lines, a header line of titles or a record line of field
  values; quoting of fields is left out. \<open>None\<close> is a file that does not exist.
\<close>

datatype csv_line = HeaderLine "jstring list" | RecordLine "jstring list"

type_synonym csv_file = "csv_line list option"

text \<open>
  The writer of the npm package \<open>csv-writer\<close>, which is not part of this
  repository, after the package's documentation of \<open>createObjectCsvWriter\<close>:
  \<open>header\<close> is the list of columns (\<open>id\<close>, \<open>title\<close>); with \<open>append: false\<close> (the
  default) \<open>writeRecords\<close> replaces the file by the header line and the records;
  with \<open>append: true\<close> it appends the records to the file, creating it if it does
  not exist, and no header line is written.
\<close>

record csv_writer =
  cw_header :: "(string \<times> string) list"
  cw_append :: bool

definition field :: "stock \<Rightarrow> string \<Rightarrow> jstring" where
  "field r fid =
     (if fid = ''ticker'' then ticker r
      else if fid = ''company'' then company r
      else if fid = ''marketCap'' then marketCap r
      else if fid = ''extractedAt'' then extractedAt r
      else [])"

definition headerString :: "csv_writer \<Rightarrow> csv_line list" where
  "headerString cw = (if \<not> cw_append cw then [HeaderLine (map (\<lambda>(fid, title). js title) (cw_header cw))] else [])"

definition stringifyRecords :: "csv_writer \<Rightarrow> stock list \<Rightarrow> csv_line list" where
  "stringifyRecords cw records =
     map (\<lambda>r. RecordLine (map (\<lambda>(fid, title). field r fid) (cw_header cw))) records"

definition writeRecords :: "csv_writer \<Rightarrow> csv_file \<Rightarrow> stock list \<Rightarrow> csv_file" where
  "writeRecords cw file records =
     Some ((if cw_append cw then (case file of None \<Rightarrow> [] | Some ls \<Rightarrow> ls) else [])
           @ headerString cw @ stringifyRecords cw records)"

section \<open>The orchestrator: \<open>runQuery\<close>\<close>

text \<open>
  The bot: the browser and page handles (\<open>None\<close> is \<open>null\<close>), the CSV file at
  \<open>csvPath\<close>, and, as a record of what was done, the calls made to the outside
  in order.
\<close>

datatype event = Launch | NewPage | SetUserAgent | Query | WriteRecords | CloseBrowser nat

record bot =
  browser :: "nat option"
  page :: "nat option"
  csv :: csv_file
  calls :: "event list"

text \<open>
  What the outside does during one run: the outcome of each awaited call, and
  the clock. \<open>w_query\<close> is the outcome of the whole of \<open>queryPerplexity\<close>
  (lines 40-86), which rethrows what its steps throw and otherwise returns the
  text of the page. \<open>browser.close()\<close> is taken to resolve.
\<close>

record world =
  w_launch :: "nat outcome"
  w_newPage :: "nat outcome"
  w_setUserAgent :: "unit outcome"
  w_query :: "jstring outcome"
  w_write :: "unit outcome"
  w_now :: "nat \<Rightarrow> jstring"




text \<open>Lines 169-178: the writer that every call of \<open>saveToCSV\<close> creates anew.\<close>

definition csvWriter :: csv_writer where
  "csvWriter = \<lparr>cw_header = [(''ticker'', ''Ticker''), (''company'', ''Company Name''),
                              (''marketCap'', ''Market Cap''), (''extractedAt'', ''Extracted At'')],
                cw_append = True\<rparr>"

text \<open>Lines 166-182.\<close>

definition saveToCSV :: "world \<Rightarrow> bot \<Rightarrow> stock list \<Rightarrow> unit outcome \<times> bot" where
  "saveToCSV w b stocks =
     (let b1 = b\<lparr>calls := calls b @ [WriteRecords]\<rparr>
      in case w_write w of
           Throws e \<Rightarrow> (Throws e, b1)
         | Resolves u \<Rightarrow> (Resolves (), b1\<lparr>csv := writeRecords csvWriter (csv b1) stocks\<rparr>))"



text \<open>A clock for concrete runs: every record is stamped with the same instant.\<close>

definition now0 :: "nat \<Rightarrow> jstring" where
  "now0 n = js ''2025-01-01T00:00:00.000Z''"


definition bot_fresh :: bot where
  "bot_fresh = \<lparr>browser = None, page = None, csv = None, calls = []\<rparr>"


definition world_ok :: "jstring \<Rightarrow> world" where
  "world_ok answer = \<lparr>w_launch = Resolves 2, w_newPage = Resolves 2, w_setUserAgent = Resolves (),
     w_query = Resolves answer, w_write = Resolves (), w_now = now0\<rparr>"



text \<open>The line of one record in the file.\<close>

definition record_line :: "stock \<Rightarrow> csv_line" where
  "record_line r = RecordLine [ticker r, company r, marketCap r, extractedAt r]"

section \<open>The order of acceptance\<close>

text \<open>
  To state the order in which records are accepted: the matches that the
  \<open>while\<close> loop of a pattern receives from \<open>exec\<close>, one after the other, each
  with the index where it starts; what the loop does with one match; what the
  fallback does with one line.
\<close>

function all_matches :: "regexp \<Rightarrow> jstring \<Rightarrow> nat option \<Rightarrow> nat \<Rightarrow> (nat \<times> mstate) list" where
  "all_matches pat xs pv i =
     (case exec_from pat xs pv i of
        None \<Rightarrow> []
      | Some (b, mt) \<Rightarrow>
          (b, mt) # (if length (rest mt) < length xs
                     then all_matches pat (rest mt) (prev mt) (pos mt) else []))"
  by pat_completeness auto
termination
  by (relation "measure (\<lambda>(pat, xs, pv, i). length xs)") auto

definition strategy_step :: "(nat \<Rightarrow> jstring) \<Rightarrow> regexp \<Rightarrow> jstring \<Rightarrow> stock list \<Rightarrow> mstate \<Rightarrow>
    stock list" where
  "strategy_step now pat tx st mt =
     (if length st < 15 then accept now (candidate pat tx mt) st else st)"

definition fallback_step :: "(nat \<Rightarrow> jstring) \<Rightarrow> stock list \<Rightarrow> jstring \<Rightarrow> stock list" where
  "fallback_step now st line = (if 10 \<le> length st then st else fallback_line now line st)"

section \<open>Properties of the matcher\<close>

text \<open>The least number of characters a node consumes.\<close>

fun mlen :: "regex \<Rightarrow> nat" where
  "mlen (One cl) = 1"
| "mlen (Rep cl lo hi) = lo"
| "mlen (Seq a b) = mlen a + mlen b"
| "mlen (Grp n r) = mlen r"
| "mlen r = 0"

lemma match_consumes:
  "match ic k s = Some s' \<Longrightarrow> length (rest s') + sum_list (map mlen k) \<le> length (rest s)"
proof (induction ic k s arbitrary: s' rule: match.induct)
  case (1 ic s)
  then show ?case by simp
next
  case (2 ic cl k s)
  show ?case
  proof (cases "rest s")
    case Nil
    with "2.prems" show ?thesis by simp
  next
    case (Cons x xs)
    with "2.prems" have c: "class_match ic cl x"
      and m: "match ic k (MState xs (Some x) (Suc (pos s)) (caps s)) = Some s'"
      by (simp_all split: if_splits)
    from "2.IH" [OF Cons c m] Cons show ?thesis by simp
  qed
next
  case (3 ic cl lo hi k s)
  show ?case
  proof (cases "rest s")
    case Nil
    with "3.prems" have l: "lo = 0" and m: "match ic k s = Some s'"
      by (simp_all split: if_splits)
    from "3.IH"(1) [OF Nil l m] l show ?thesis by simp
  next
    case (Cons x xs)
    show ?thesis
    proof (cases "hi \<noteq> Some 0 \<and> class_match ic cl x")
      case True
      let ?rec = "match ic (Rep cl (lo - 1) (map_option (\<lambda>h. h - 1) hi) # k)
                    (MState xs (Some x) (Suc (pos s)) (caps s))"
      show ?thesis
      proof (cases ?rec)
        case None
        with "3.prems" Cons True have l: "lo = 0" and m: "match ic k s = Some s'"
          by (simp_all split: if_splits)
        from "3.IH"(3) [OF Cons True None l m] l show ?thesis by simp
      next
        case (Some r)
        with "3.prems" Cons True have "?rec = Some s'" by simp
        from "3.IH"(2) [OF Cons True this] Cons show ?thesis by simp
      qed
    next
      case False
      with "3.prems" Cons have l: "lo = 0" and m: "match ic k s = Some s'"
        by (simp_all split: if_splits)
      from "3.IH"(4) [OF Cons False l m] l show ?thesis by simp
    qed
  qed
next
  case (4 ic a b k s)
  then show ?case by simp
next
  case (5 ic n r k s)
  then show ?case by simp
next
  case (6 ic n b k s)
  then show ?case by fastforce
next
  case (7 ic r k s)
  then show ?case by (fastforce split: option.splits)
next
  case (8 ic k s)
  then show ?case by (simp split: if_splits)
next
  case (9 ic k s)
  then show ?case by (simp split: if_splits)
qed

declare exec_loop.simps [simp del] replace_all.simps [simp del]

lemma exec_from_consumes:
  "exec_from re xs pv i = Some (b, mt) \<Longrightarrow> length (rest mt) + mlen (body re) \<le> length xs"
proof (induction xs arbitrary: pv i)
  case Nil
  then show ?case
    using match_consumes [of "ignoreCase re" "[body re]" "MState [] pv i []" mt]
    by (simp split: option.splits)
next
  case (Cons x xs)
  show ?case
  proof (cases "match (ignoreCase re) [body re] (MState (x # xs) pv i [])")
    case None
    with Cons.prems have "exec_from re xs (Some x) (Suc i) = Some (b, mt)" by simp
    from Cons.IH [OF this] show ?thesis by simp
  next
    case (Some s)
    with Cons.prems have "s = mt" by simp
    with Some match_consumes [of "ignoreCase re" "[body re]" "MState (x # xs) pv i []" mt]
    show ?thesis by simp
  qed
qed

lemma exec_loop_returns:
  "0 < mlen (body pat) \<Longrightarrow> \<exists>out. exec_loop now pat tx xs pv i stocks = Some out"
proof (induction now pat tx xs pv i stocks rule: exec_loop.induct)
  case (1 now pat tx xs pv i stocks)
  show ?case
  proof (cases "exec_from pat xs pv i")
    case None
    then show ?thesis by (simp add: exec_loop.simps)
  next
    case (Some bm)
    obtain b mt where bm: "bm = (b, mt)" by (cases bm)
    from Some bm have lt: "length (rest mt) < length xs"
      using exec_from_consumes [of pat xs pv i b mt] "1.prems" by simp
    show ?thesis
    proof (cases "length stocks < 15")
      case True
      have "\<exists>out. exec_loop now pat tx (rest mt) (prev mt) (pos mt)
                (accept now (candidate pat tx mt) stocks) = Some out"
        using "1.IH" [OF Some [unfolded bm] refl True lt "1.prems"] .
      with Some bm lt True show ?thesis
        by (subst exec_loop.simps) simp
    next
      case False
      with Some bm show ?thesis by (subst exec_loop.simps) simp
    qed
  qed
qed

lemma mlen_patterns:
  "0 < mlen (body pattern1)" "0 < mlen (body pattern2)"
  "0 < mlen (body pattern3)" "0 < mlen (body pattern4)"
  by (simp_all add: pattern1_def pattern2_def pattern3_def pattern4_def lit_def billion_def)

lemma strategy_pass_returns:
  "\<forall>pat \<in> set pats. 0 < mlen (body pat) \<Longrightarrow> \<exists>out. strategy_pass now tx pats stocks = Some out"
proof (induction pats arbitrary: stocks)
  case Nil
  then show ?case by simp
next
  case (Cons pat pats)
  then obtain s1 where "exec_loop now pat tx tx None 0 stocks = Some s1"
    using exec_loop_returns [of pat now tx tx None 0 stocks] by auto
  with Cons show ?case by simp
qed

lemma parse_returns: "\<exists>out. parseStockData now tx = Some out"
proof -
  have "\<exists>out. strategy_pass now tx patterns [] = Some out"
    by (rule strategy_pass_returns) (simp add: patterns_def mlen_patterns)
  then show ?thesis by (auto simp: parseStockData_def)
qed

lemma exec_loop_inv:
  "(\<And>cand st. P st \<Longrightarrow> length st < 15 \<Longrightarrow> P (accept now cand st)) \<Longrightarrow>
   P stocks \<Longrightarrow> exec_loop now pat tx xs pv i stocks = Some out \<Longrightarrow> P out"
proof (induction now pat tx xs pv i stocks rule: exec_loop.induct)
  case (1 now pat tx xs pv i stocks)
  note step = "1.prems"(1) and P0 = "1.prems"(2) and run0 = "1.prems"(3)
  show ?case
  proof (cases "exec_from pat xs pv i")
    case None
    with run0 have "out = stocks" by (simp add: exec_loop.simps)
    with P0 show ?thesis by simp
  next
    case (Some bm)
    obtain b mt where bm: "bm = (b, mt)" by (cases bm)
    show ?thesis
    proof (cases "length stocks < 15")
      case True
      show ?thesis
      proof (cases "length (rest mt) < length xs")
        case lt: True
        have "exec_loop now pat tx xs pv i stocks =
              exec_loop now pat tx (rest mt) (prev mt) (pos mt)
                (accept now (candidate pat tx mt) stocks)"
          using Some bm True lt by (subst exec_loop.simps) simp
        with run0 have run: "exec_loop now pat tx (rest mt) (prev mt) (pos mt)
                (accept now (candidate pat tx mt) stocks) = Some out" by simp
        have "P (accept now (candidate pat tx mt) stocks)"
          using step [OF P0 True] .
        from "1.IH" [OF Some [unfolded bm] refl True lt step this run] show ?thesis .
      next
        case False
        have "exec_loop now pat tx xs pv i stocks = None"
          using Some bm True False by (subst exec_loop.simps) simp
        with run0 show ?thesis by simp
      qed
    next
      case False
      have "exec_loop now pat tx xs pv i stocks = Some stocks"
        using Some bm False by (subst exec_loop.simps) simp
      with run0 P0 show ?thesis by simp
    qed
  qed
qed

lemma strategy_pass_inv:
  assumes step: "\<And>cand st. P st \<Longrightarrow> length st < 15 \<Longrightarrow> P (accept now cand st)"
  shows "P stocks \<Longrightarrow> strategy_pass now tx pats stocks = Some out \<Longrightarrow> P out"
proof (induction pats arbitrary: stocks)
  case Nil
  then show ?case by simp
next
  case (Cons pat pats)
  from Cons.prems(2) obtain s1 where l: "exec_loop now pat tx tx None 0 stocks = Some s1"
    and r: "strategy_pass now tx pats s1 = Some out"
    by (auto split: option.splits)
  have "P s1" using exec_loop_inv [where P = P, OF step Cons.prems(1) l] by blast
  from Cons.IH [OF this r] show ?case .
qed

lemma fallback_loop_inv:
  assumes step: "\<And>line st. P st \<Longrightarrow> length st < 10 \<Longrightarrow> P (fallback_line now line st)"
  shows "P stocks \<Longrightarrow> P (fallback_loop now lines stocks)"
proof (induction lines arbitrary: stocks)
  case Nil
  then show ?case by simp
next
  case (Cons line lines)
  show ?case
  proof (cases "10 \<le> length stocks")
    case True
    with Cons.prems show ?thesis by simp
  next
    case False
    then have "P (fallback_line now line stocks)" using step Cons.prems by simp
    from Cons.IH [OF this] False show ?thesis by simp
  qed
qed

lemma parse_inv:
  assumes a: "\<And>cand st. P st \<Longrightarrow> length st < 15 \<Longrightarrow> P (accept now cand st)"
    and f: "\<And>line st. P st \<Longrightarrow> length st < 10 \<Longrightarrow> P (fallback_line now line st)"
    and e: "P []"
    and p: "parseStockData now tx = Some out"
  shows "P out"
proof -
  from p obtain sp where sp: "strategy_pass now tx patterns [] = Some sp"
    and out: "out = (if length sp < 5 then fallback_loop now (split_nl tx) sp else sp)"
    by (auto simp: parseStockData_def split: option.splits)
  have "P sp" using strategy_pass_inv [where P = P, OF a e sp] by blast
  then show ?thesis using out fallback_loop_inv [where P = P, OF f] by simp
qed

lemma accept_cases:
  "accept now cand st = st \<or>
   (\<exists>t c m. cand = (Some t, Some c, Some m) \<and> t \<noteq> [] \<and> c \<noteq> [] \<and> m \<noteq> []
      \<and> num_le (parseFloat m) 2 \<and> \<not> has_ticker st (js_replace t notUpperRe)
      \<and> accept now cand st = st @ [\<lparr>ticker = js_replace t notUpperRe,
            company = substring0 (trim (js_replace c enumRe)) 50,
            marketCap = js ''$'' @ m @ js ''B'', extractedAt = now (length st)\<rparr>])"
  by (auto simp: accept_def Let_def split: prod.splits option.splits)

lemma fallback_line_cases:
  "fallback_line now line st = st \<or>
   (\<exists>tm cm t m. js_match line tickerRe = Some tm \<and> js_match line capReI = Some cm
      \<and> group line (snd tm) 1 = Some t \<and> group line (snd cm) 1 = Some m
      \<and> num_le (parseFloat m) 2 \<and> \<not> has_ticker st t
      \<and> fallback_line now line st = st @ [\<lparr>ticker = t, company = js ''Company for '' @ t,
            marketCap = js ''$'' @ m @ js ''B'', extractedAt = now (length st)\<rparr>])"
  by (auto simp: fallback_line_def split: prod.splits option.splits)

lemma accept_length: "length (accept now cand st) \<le> Suc (length st)"
  using accept_cases [of now cand st] by auto

lemma fallback_line_length: "length (fallback_line now line st) \<le> Suc (length st)"
  using fallback_line_cases [of now line st] by auto

lemma strategy_pass_length:
  "strategy_pass now tx pats [] = Some sp \<Longrightarrow> length sp \<le> 15"
proof -
  assume sp: "strategy_pass now tx pats [] = Some sp"
  have "\<And>cand st. length st \<le> 15 \<Longrightarrow> length st < 15 \<Longrightarrow> length (accept now cand st) \<le> 15"
    using accept_length by (metis Suc_leI le_trans)
  from strategy_pass_inv [where P = "\<lambda>st. length st \<le> 15", OF this _ sp] show ?thesis by simp
qed

lemma fallback_loop_length:
  "length st \<le> 10 \<Longrightarrow> length (fallback_loop now lines st) \<le> 10"
proof -
  assume st: "length st \<le> 10"
  have "\<And>line st. length st \<le> 10 \<Longrightarrow> length st < 10 \<Longrightarrow> length (fallback_line now line st) \<le> 10"
    using fallback_line_length by (metis Suc_leI le_trans)
  from fallback_loop_inv [where P = "\<lambda>st. length st \<le> 10", OF this st] show ?thesis .
qed

lemma fallback_loop_full: "10 \<le> length st \<Longrightarrow> fallback_loop now lines st = st"
  by (cases lines) simp_all

text \<open>
  C5. The strategy pass returns and accepts at most 15 records. The result of
  \<open>parseStockData\<close> is the fallback run on the strategy records when these are
  fewer than 5, and the strategy records themselves otherwise. A fallback that
  runs ends with at most 10 records, and with 10 records or more it accepts
  nothing. The result never has more than 15 records.
\<close>

theorem parse_record_limits:
  "\<exists>sp. strategy_pass now tx patterns [] = Some sp \<and> length sp \<le> 15
     \<and> parseStockData now tx
         = Some (if length sp < 5 then fallback_loop now (split_nl tx) sp else sp)
     \<and> (length sp < 5 \<longrightarrow> length (fallback_loop now (split_nl tx) sp) \<le> 10)
     \<and> (\<forall>lines st. 10 \<le> length st \<longrightarrow> fallback_loop now lines st = st)
     \<and> (\<forall>out. parseStockData now tx = Some out \<longrightarrow> length out \<le> 15)"
proof -
  obtain sp where sp: "strategy_pass now tx patterns [] = Some sp"
    using strategy_pass_returns [of patterns now tx "[]"]
    by (auto simp: patterns_def mlen_patterns)
  have l15: "length sp \<le> 15" using strategy_pass_length [OF sp] .
  have fb: "length sp < 5 \<longrightarrow> length (fallback_loop now (split_nl tx) sp) \<le> 10"
    using fallback_loop_length [of sp now "split_nl tx"] by simp
  have p: "parseStockData now tx
         = Some (if length sp < 5 then fallback_loop now (split_nl tx) sp else sp)"
    using sp by (simp add: parseStockData_def)
  have "\<forall>out. parseStockData now tx = Some out \<longrightarrow> length out \<le> 15"
    using p fb l15 by (auto split: if_splits)
  with sp l15 fb p fallback_loop_full show ?thesis by blast
qed

lemmas regex_defs = cu_def lit_def upper_AZ_def digit_or_dot_def billion_def
  pattern1_def pattern2_def pattern3_def pattern4_def patterns_def
  tickerRe_def capRe_def capReI_def parenRe_def capReG_def notUpperRe_def enumRe_def

lemmas eval_defs = regex_defs js_def ignoreCase_def global_def in_rng_def to_upper_def
  to_lower_def is_space_def is_line_terminator_def is_word_char_def at_boundary_def trim_def
  substring0_def group_def js_match_def replace_first_def js_replace_def has_ticker_def
  candidate_def accept_def fallback_line_def parseFloat_def to_double_def pow2_def
  is_digit_def digits_val_def Let_def bitlen.simps exec_loop.simps replace_all.simps

lemma xyz_strategy_pass:
  "strategy_pass now (js ''XYZ (Example Corp) ... $1.5 billion'') patterns [] = Some
     [\<lparr>ticker = js ''XYZ'', company = js ''Example Corp'', marketCap = js ''$1.5B'',
       extractedAt = now 0\<rparr>]"
  by (simp add: eval_defs)

lemma xyz_fallback:
  "fallback_loop now (split_nl (js ''XYZ (Example Corp) ... $1.5 billion''))
     [\<lparr>ticker = js ''XYZ'', company = js ''Example Corp'', marketCap = js ''$1.5B'',
       extractedAt = now 0\<rparr>]
   = [\<lparr>ticker = js ''XYZ'', company = js ''Example Corp'', marketCap = js ''$1.5B'',
       extractedAt = now 0\<rparr>]"
  by (simp add: eval_defs)

lemma xyz_parse:
  "parseStockData now (js ''XYZ (Example Corp) ... $1.5 billion'') = Some
     [\<lparr>ticker = js ''XYZ'', company = js ''Example Corp'', marketCap = js ''$1.5B'',
       extractedAt = now 0\<rparr>]"
  by (simp add: parseStockData_def xyz_strategy_pass xyz_fallback)

theorem parse_record_limits_witness:
  "strategy_pass (\<lambda>n. js ''T'') (js ''XYZ (Example Corp) ... $1.5 billion'') patterns []
     = Some [\<lparr>ticker = js ''XYZ'', company = js ''Example Corp'', marketCap = js ''$1.5B'',
              extractedAt = js ''T''\<rparr>]
   \<and> length [\<lparr>ticker = js ''XYZ'', company = js ''Example Corp'', marketCap = js ''$1.5B'',
              extractedAt = js ''T''\<rparr>] < 5
   \<and> length (fallback_loop (\<lambda>n. js ''T'') (split_nl (js ''XYZ (Example Corp) ... $1.5 billion''))
       [\<lparr>ticker = js ''XYZ'', company = js ''Example Corp'', marketCap = js ''$1.5B'',
              extractedAt = js ''T''\<rparr>]) \<le> 10
   \<and> parseStockData (\<lambda>n. js ''T'') (js ''XYZ (Example Corp) ... $1.5 billion'')
     = Some [\<lparr>ticker = js ''XYZ'', company = js ''Example Corp'', marketCap = js ''$1.5B'',
              extractedAt = js ''T''\<rparr>]"
proof -
  let ?now = "\<lambda>n::nat. js ''T''"
  let ?tx = "js ''XYZ (Example Corp) ... $1.5 billion''"
  let ?r = "\<lparr>ticker = js ''XYZ'', company = js ''Example Corp'', marketCap = js ''$1.5B'',
              extractedAt = js ''T''\<rparr>"
  obtain sp where a: "strategy_pass ?now ?tx patterns [] = Some sp"
    and b: "length sp < 5 \<longrightarrow> length (fallback_loop ?now (split_nl ?tx) sp) \<le> 10"
    and c: "parseStockData ?now ?tx
         = Some (if length sp < 5 then fallback_loop ?now (split_nl ?tx) sp else sp)"
    using parse_record_limits [of ?now ?tx] by blast
  have e: "strategy_pass ?now ?tx patterns [] = Some [?r]"
    using xyz_strategy_pass [of ?now] by simp
  with a have sp: "sp = [?r]" by simp
  have f: "fallback_loop ?now (split_nl ?tx) [?r] = [?r]"
    using xyz_fallback [of ?now] by simp
  from b c show ?thesis unfolding sp using e f by simp
qed



lemma has_ticker_iff: "has_ticker st t \<longleftrightarrow> t \<in> set (map ticker st)"
  by (induction st) (auto simp: has_ticker_def)

lemma num_le_iff: "num_le x c \<longleftrightarrow> (\<exists>d. x = Num d \<and> d \<le> c)"
  by (cases x) auto

lemma parse_distinct:
  "parseStockData now tx = Some out \<Longrightarrow> distinct (map ticker out)"
proof (rule parse_inv [where P = "\<lambda>st. distinct (map ticker st)"])
  fix cand and st :: "stock list"
  assume "distinct (map ticker st)"
  then show "distinct (map ticker (accept now cand st))"
    using accept_cases [of now cand st] by (auto simp: has_ticker_iff)
next
  fix line and st :: "stock list"
  assume "distinct (map ticker st)"
  then show "distinct (map ticker (fallback_line now line st))"
    using fallback_line_cases [of now line st] by (auto simp: has_ticker_iff)
qed simp_all

text \<open>
  C4. \<open>parseStockData\<close> returns, and no two records of its result share a
  ticker. A candidate of a pattern match whose normalised ticker is already in
  the list, and a fallback line whose ticker is, leave the list as it is: the
  record accepted first stays, unchanged.
\<close>

theorem parse_tickers_unique:
  "(\<exists>out. parseStockData now tx = Some out \<and> distinct (map ticker out))
   \<and> (\<forall>t c m st. has_ticker st (js_replace t notUpperRe) \<longrightarrow>
          accept now (Some t, Some c, Some m) st = st)
   \<and> (\<forall>line tm t st. js_match line tickerRe = Some tm \<and> group line (snd tm) 1 = Some t
          \<and> has_ticker st t \<longrightarrow> fallback_line now line st = st)"
proof -
  have a: "\<exists>out. parseStockData now tx = Some out \<and> distinct (map ticker out)"
    using parse_returns [of now tx] parse_distinct [of now tx] by blast
  have b: "\<forall>t c m st. has_ticker st (js_replace t notUpperRe) \<longrightarrow>
          accept now (Some t, Some c, Some m) st = st"
    by (simp add: accept_def Let_def)
  have c: "\<forall>line tm t st. js_match line tickerRe = Some tm \<and> group line (snd tm) 1 = Some t
          \<and> has_ticker st t \<longrightarrow> fallback_line now line st = st"
    by (auto simp: fallback_line_def split: option.splits prod.splits)
  from a b c show ?thesis by blast
qed

lemma parse_all:
  assumes acc: "\<And>t c m n. t \<noteq> [] \<Longrightarrow> c \<noteq> [] \<Longrightarrow> m \<noteq> [] \<Longrightarrow> num_le (parseFloat m) 2 \<Longrightarrow>
      Q \<lparr>ticker = js_replace t notUpperRe, company = substring0 (trim (js_replace c enumRe)) 50,
         marketCap = js ''$'' @ m @ js ''B'', extractedAt = now n\<rparr>"
    and fb: "\<And>line tm cm t m n. js_match line tickerRe = Some tm \<Longrightarrow>
      js_match line capReI = Some cm \<Longrightarrow> group line (snd tm) 1 = Some t \<Longrightarrow>
      group line (snd cm) 1 = Some m \<Longrightarrow> num_le (parseFloat m) 2 \<Longrightarrow>
      Q \<lparr>ticker = t, company = js ''Company for '' @ t,
         marketCap = js ''$'' @ m @ js ''B'', extractedAt = now n\<rparr>"
    and p: "parseStockData now tx = Some out"
  shows "\<forall>r \<in> set out. Q r"
proof (rule parse_inv [where P = "\<lambda>st. \<forall>r \<in> set st. Q r", OF _ _ _ p])
  fix cand and st :: "stock list"
  assume "\<forall>r \<in> set st. Q r"
  then show "\<forall>r \<in> set (accept now cand st). Q r"
    using accept_cases [of now cand st] acc by auto
next
  fix line and st :: "stock list"
  assume "\<forall>r \<in> set st. Q r"
  then show "\<forall>r \<in> set (fallback_line now line st). Q r"
    using fallback_line_cases [of now line st] fb by auto
qed simp

lemma parse_caps:
  assumes "parseStockData now tx = Some out"
  shows "\<forall>r \<in> set out. \<exists>m d. marketCap r = js ''$'' @ m @ js ''B'' \<and> parseFloat m = Num d \<and> d \<le> 2"
  by (rule parse_all [OF _ _ assms]) (auto simp: num_le_iff)


text \<open>
  C8. On the text \<open>XYZ (Example Corp) ... $1.5 billion\<close> the first pattern
  (ticker, then the company in parentheses) accepts the record XYZ, Example
  Corp, $1.5B; the whole strategy pass and \<open>parseStockData\<close> return exactly this
  record. The fourth pattern and the fallback, run on an empty list, would each
  accept a record for XYZ as well: in the run they find the ticker taken.
\<close>

theorem parse_ticker_then_company_example:
  "exec_loop now pattern1 (js ''XYZ (Example Corp) ... $1.5 billion'')
       (js ''XYZ (Example Corp) ... $1.5 billion'') None 0 []
     = Some [\<lparr>ticker = js ''XYZ'', company = js ''Example Corp'', marketCap = js ''$1.5B'',
              extractedAt = now 0\<rparr>]
   \<and> strategy_pass now (js ''XYZ (Example Corp) ... $1.5 billion'') patterns []
     = Some [\<lparr>ticker = js ''XYZ'', company = js ''Example Corp'', marketCap = js ''$1.5B'',
              extractedAt = now 0\<rparr>]
   \<and> parseStockData now (js ''XYZ (Example Corp) ... $1.5 billion'')
     = Some [\<lparr>ticker = js ''XYZ'', company = js ''Example Corp'', marketCap = js ''$1.5B'',
              extractedAt = now 0\<rparr>]
   \<and> exec_loop now pattern4 (js ''XYZ (Example Corp) ... $1.5 billion'')
       (js ''XYZ (Example Corp) ... $1.5 billion'') None 0 []
     = Some [\<lparr>ticker = js ''XYZ'', company = js ''XYZ  ...'', marketCap = js ''$1.5B'',
              extractedAt = now 0\<rparr>]
   \<and> fallback_line now (js ''XYZ (Example Corp) ... $1.5 billion'') []
     = [\<lparr>ticker = js ''XYZ'', company = js ''Company for XYZ'', marketCap = js ''$1.5B'',
              extractedAt = now 0\<rparr>]"
proof -
  have "exec_loop now pattern1 (js ''XYZ (Example Corp) ... $1.5 billion'')
       (js ''XYZ (Example Corp) ... $1.5 billion'') None 0 []
     = Some [\<lparr>ticker = js ''XYZ'', company = js ''Example Corp'', marketCap = js ''$1.5B'',
              extractedAt = now 0\<rparr>]"
    by (simp add: eval_defs)
  moreover have "exec_loop now pattern4 (js ''XYZ (Example Corp) ... $1.5 billion'')
       (js ''XYZ (Example Corp) ... $1.5 billion'') None 0 []
     = Some [\<lparr>ticker = js ''XYZ'', company = js ''XYZ  ...'', marketCap = js ''$1.5B'',
              extractedAt = now 0\<rparr>]"
    by (simp add: eval_defs)
  moreover have "fallback_line now (js ''XYZ (Example Corp) ... $1.5 billion'') []
     = [\<lparr>ticker = js ''XYZ'', company = js ''Company for XYZ'', marketCap = js ''$1.5B'',
              extractedAt = now 0\<rparr>]"
    by (simp add: eval_defs)
  ultimately show ?thesis
    using xyz_strategy_pass [of now] xyz_parse [of now] by blast
qed

text \<open>
  C2, at the input \<open>abc (Example Corp) ... $1.5 billion\<close>: with the \<open>i\<close> flag the
  first pattern takes the lower-case \<open>abc\<close> as ticker, the normalisation removes
  its letters, and a record with the empty ticker is returned.
\<close>

theorem parse_lowercase_ticker:
  "parseStockData now0 (js ''abc (Example Corp) ... $1.5 billion'')
     = Some [\<lparr>ticker = [], company = js ''Example Corp'', marketCap = js ''$1.5B'',
              extractedAt = now0 0\<rparr>]"
  by (simp add: parseStockData_def eval_defs)

theorem parse_tickers_unique_witness:
  "parseStockData now0 (js ''XYZ (Example Corp) ... $1.5 billion'')
     = Some [\<lparr>ticker = js ''XYZ'', company = js ''Example Corp'', marketCap = js ''$1.5B'',
              extractedAt = now0 0\<rparr>]
   \<and> distinct (map ticker [\<lparr>ticker = js ''XYZ'', company = js ''Example Corp'',
              marketCap = js ''$1.5B'', extractedAt = now0 0\<rparr>])
   \<and> has_ticker [\<lparr>ticker = js ''XYZ'', company = js ''Example Corp'',
              marketCap = js ''$1.5B'', extractedAt = now0 0\<rparr>] (js_replace (js ''XYZ'') notUpperRe)
   \<and> accept now0 (Some (js ''XYZ''), Some (js ''Other Inc''), Some (js ''1.0''))
         [\<lparr>ticker = js ''XYZ'', company = js ''Example Corp'',
              marketCap = js ''$1.5B'', extractedAt = now0 0\<rparr>]
       = [\<lparr>ticker = js ''XYZ'', company = js ''Example Corp'',
              marketCap = js ''$1.5B'', extractedAt = now0 0\<rparr>]
   \<and> js_match (js ''XYZ is up'') tickerRe = Some (0, MState (js '' is up'') (Some (cu CHR ''Z'')) 3 [(1, 0, 3)])
   \<and> group (js ''XYZ is up'') (MState (js '' is up'') (Some (cu CHR ''Z'')) 3 [(1, 0, 3)]) 1 = Some (js ''XYZ'')
   \<and> fallback_line now0 (js ''XYZ is up'')
         [\<lparr>ticker = js ''XYZ'', company = js ''Example Corp'',
              marketCap = js ''$1.5B'', extractedAt = now0 0\<rparr>]
       = [\<lparr>ticker = js ''XYZ'', company = js ''Example Corp'',
              marketCap = js ''$1.5B'', extractedAt = now0 0\<rparr>]"
proof -
  let ?tx = "js ''XYZ (Example Corp) ... $1.5 billion''"
  let ?r = "\<lparr>ticker = js ''XYZ'', company = js ''Example Corp'', marketCap = js ''$1.5B'',
              extractedAt = now0 0\<rparr>"
  let ?tm = "(0::nat, MState (js '' is up'') (Some (cu CHR ''Z'')) 3 [(1, 0, 3)])"
  note u = parse_tickers_unique [of now0 ?tx]
  have p: "parseStockData now0 ?tx = Some [?r]" by (rule xyz_parse)
  from u p have d: "distinct (map ticker [?r])" by auto
  have h: "has_ticker [?r] (js_replace (js ''XYZ'') notUpperRe)"
    by (simp add: eval_defs)
  from u h have a: "accept now0 (Some (js ''XYZ''), Some (js ''Other Inc''), Some (js ''1.0'')) [?r] = [?r]"
    by blast
  have m: "js_match (js ''XYZ is up'') tickerRe = Some ?tm"
    by (simp add: eval_defs)
  have g: "group (js ''XYZ is up'') (snd ?tm) 1 = Some (js ''XYZ'')"
    by (simp add: eval_defs)
  have h2: "has_ticker [?r] (js ''XYZ'')" by (simp add: has_ticker_def)
  from u m g h2 have f: "fallback_line now0 (js ''XYZ is up'') [?r] = [?r]" by blast
  from p d h a m g f show ?thesis by simp
qed

text \<open>
  C3, the claim as stated fails: in
  \<open>$1 billion Example Corp (XYZ) ... $2.5 billion\<close> the only mention of XYZ is
  the phrase of the claim, and a record for XYZ is returned. The fourth pattern
  pairs the first ticker of the line with the first amount of the line.
\<close>

theorem parse_threshold_counterexample:
  "parseStockData now0 (js ''$1 billion Example Corp (XYZ) ... $2.5 billion'')
     = Some [\<lparr>ticker = js ''XYZ'', company = js ''Example Corp  ...'', marketCap = js ''$1B'',
              extractedAt = now0 0\<rparr>]"
  by (simp add: parseStockData_def eval_defs)

lemma parse_over_threshold:
  "parseStockData now (js ''Example Corp (XYZ) ... $2.5 billion'') = Some []"
  by (simp add: parseStockData_def eval_defs)

text \<open>
  C3, amended. \<open>parseStockData\<close> returns, and every record of its result has a
  market cap of the form \<open>$\<close>, a value, \<open>B\<close>, where the value read by
  \<open>parseFloat\<close> is a number not above 2. The text
  \<open>Example Corp (XYZ) ... $2.5 billion\<close> by itself gives no record.
\<close>

theorem parse_market_cap:
  "(\<exists>out. parseStockData now tx = Some out
      \<and> (\<forall>r \<in> set out. \<exists>m d. marketCap r = js ''$'' @ m @ js ''B''
            \<and> parseFloat m = Num d \<and> d \<le> 2))
   \<and> parseStockData now (js ''Example Corp (XYZ) ... $2.5 billion'') = Some []"
  using parse_returns [of now tx] parse_caps [of now tx] parse_over_threshold [of now]
  by blast

theorem parse_market_cap_witness:
  "parseStockData now0 (js ''XYZ (Example Corp) ... $1.5 billion'')
     = Some [\<lparr>ticker = js ''XYZ'', company = js ''Example Corp'', marketCap = js ''$1.5B'',
              extractedAt = now0 0\<rparr>]
   \<and> (\<exists>m d. js ''$1.5B'' = js ''$'' @ m @ js ''B'' \<and> parseFloat m = Num d \<and> d \<le> 2)"
proof -
  let ?tx = "js ''XYZ (Example Corp) ... $1.5 billion''"
  let ?r = "\<lparr>ticker = js ''XYZ'', company = js ''Example Corp'', marketCap = js ''$1.5B'',
              extractedAt = now0 0\<rparr>"
  have p: "parseStockData now0 ?tx = Some [?r]" by (rule xyz_parse)
  from parse_market_cap [of now0 ?tx] p
  have "\<exists>m d. marketCap ?r = js ''$'' @ m @ js ''B'' \<and> parseFloat m = Num d \<and> d \<le> 2"
    by auto
  with p show ?thesis by simp
qed




lemma accept_append: "\<exists>ext. accept now cand st = st @ ext \<and> length ext \<le> 1"
  using accept_cases [of now cand st] by auto

lemma fallback_line_append: "\<exists>ext. fallback_line now line st = st @ ext \<and> length ext \<le> 1"
  using fallback_line_cases [of now line st] by auto

lemma exec_loop_append:
  assumes "exec_loop now pat tx xs pv i st = Some out"
  shows "\<exists>ext. out = st @ ext"
proof (rule exec_loop_inv [where P = "\<lambda>s. \<exists>ext. s = st @ ext", OF _ _ assms])
  fix cand and s :: "stock list"
  assume "\<exists>ext. s = st @ ext"
  then show "\<exists>ext. accept now cand s = st @ ext"
    using accept_append [of now cand s] by auto
qed simp


lemma fallback_loop_append: "\<exists>ext. fallback_loop now lines st = st @ ext"
proof (rule fallback_loop_inv [where P = "\<lambda>s. \<exists>ext. s = st @ ext"])
  fix line and s :: "stock list"
  assume "\<exists>ext. s = st @ ext"
  then show "\<exists>ext. fallback_line now line s = st @ ext"
    using fallback_line_append [of now line s] by auto
qed simp















lemma writeRecords_append:
  "writeRecords csvWriter file stocks
     = Some ((case file of None \<Rightarrow> [] | Some ls \<Rightarrow> ls) @ map record_line stocks)"
  by (simp add: writeRecords_def csvWriter_def headerString_def stringifyRecords_def
      record_line_def field_def)

text \<open>
  C7, on a file that does not exist: two calls of \<open>saveToCSV\<close>, with one record
  each, leave a file of the two record lines. No header line is written, at the
  first call or later: the writer is created with \<open>append: true\<close>. In general two
  writes of this writer to a new file give the lines of the first batch, then
  those of the second, and no header line is among them.
\<close>

theorem saveToCSV_twice:
  "saveToCSV (world_ok []) bot_fresh
       [\<lparr>ticker = js ''XYZ'', company = js ''Example Corp'', marketCap = js ''$1.5B'',
         extractedAt = now0 0\<rparr>]
     = (Resolves (),
        \<lparr>browser = None, page = None,
         csv = Some [RecordLine [js ''XYZ'', js ''Example Corp'', js ''$1.5B'', now0 0]],
         calls = [WriteRecords]\<rparr>)
   \<and> saveToCSV (world_ok [])
       \<lparr>browser = None, page = None,
         csv = Some [RecordLine [js ''XYZ'', js ''Example Corp'', js ''$1.5B'', now0 0]],
         calls = [WriteRecords]\<rparr>
       [\<lparr>ticker = js ''ABC'', company = js ''Abc Inc'', marketCap = js ''$0.9B'',
         extractedAt = now0 0\<rparr>]
     = (Resolves (),
        \<lparr>browser = None, page = None,
         csv = Some [RecordLine [js ''XYZ'', js ''Example Corp'', js ''$1.5B'', now0 0],
                     RecordLine [js ''ABC'', js ''Abc Inc'', js ''$0.9B'', now0 0]],
         calls = [WriteRecords, WriteRecords]\<rparr>)
   \<and> writeRecords csvWriter (writeRecords csvWriter None stocks1) stocks2
     = Some (map record_line stocks1 @ map record_line stocks2)
   \<and> HeaderLine titles \<notin> set (map record_line stocks1 @ map record_line stocks2)"
  by (auto simp: saveToCSV_def world_ok_def bot_fresh_def writeRecords_append record_line_def)

declare all_matches.simps [simp del]

lemma match_pos:
  "match ic k s = Some s' \<Longrightarrow> pos s' + length (rest s') = pos s + length (rest s)"
proof (induction ic k s arbitrary: s' rule: match.induct)
  case (1 ic s)
  then show ?case by simp
next
  case (2 ic cl k s)
  show ?case
  proof (cases "rest s")
    case Nil
    with "2.prems" show ?thesis by simp
  next
    case (Cons x xs)
    with "2.prems" have c: "class_match ic cl x"
      and m: "match ic k (MState xs (Some x) (Suc (pos s)) (caps s)) = Some s'"
      by (simp_all split: if_splits)
    from "2.IH" [OF Cons c m] Cons show ?thesis by simp
  qed
next
  case (3 ic cl lo hi k s)
  show ?case
  proof (cases "rest s")
    case Nil
    with "3.prems" have l: "lo = 0" and m: "match ic k s = Some s'"
      by (simp_all split: if_splits)
    from "3.IH"(1) [OF Nil l m] show ?thesis by simp
  next
    case (Cons x xs)
    show ?thesis
    proof (cases "hi \<noteq> Some 0 \<and> class_match ic cl x")
      case True
      let ?rec = "match ic (Rep cl (lo - 1) (map_option (\<lambda>h. h - 1) hi) # k)
                    (MState xs (Some x) (Suc (pos s)) (caps s))"
      show ?thesis
      proof (cases ?rec)
        case None
        with "3.prems" Cons True have l: "lo = 0" and m: "match ic k s = Some s'"
          by (simp_all split: if_splits)
        from "3.IH"(3) [OF Cons True None l m] show ?thesis by simp
      next
        case (Some r)
        with "3.prems" Cons True have "?rec = Some s'" by simp
        from "3.IH"(2) [OF Cons True this] Cons show ?thesis by simp
      qed
    next
      case False
      with "3.prems" Cons have l: "lo = 0" and m: "match ic k s = Some s'"
        by (simp_all split: if_splits)
      from "3.IH"(4) [OF Cons False l m] show ?thesis by simp
    qed
  qed
next
  case (4 ic a b k s)
  then show ?case by simp
next
  case (5 ic n r k s)
  then show ?case by simp
next
  case (6 ic n b k s)
  then show ?case by fastforce
next
  case (7 ic r k s)
  then show ?case by (fastforce split: option.splits)
next
  case (8 ic k s)
  then show ?case by (simp split: if_splits)
next
  case (9 ic k s)
  then show ?case by (simp split: if_splits)
qed

lemma exec_from_pos:
  "exec_from re xs pv i = Some (b, mt) \<Longrightarrow> i \<le> b \<and> b + mlen (body re) \<le> pos mt"
proof (induction xs arbitrary: pv i)
  case Nil
  then have m: "match (ignoreCase re) [body re] (MState [] pv i []) = Some mt" and b: "b = i"
    by (auto split: option.splits)
  from match_pos [OF m] match_consumes [OF m] b show ?case by simp
next
  case (Cons x xs)
  show ?case
  proof (cases "match (ignoreCase re) [body re] (MState (x # xs) pv i [])")
    case None
    with Cons.prems have "exec_from re xs (Some x) (Suc i) = Some (b, mt)" by simp
    from Cons.IH [OF this] show ?thesis by simp
  next
    case (Some s)
    with Cons.prems have e: "s = mt" "b = i" by simp_all
    from match_pos [OF Some] match_consumes [OF Some] e show ?thesis by simp
  qed
qed

lemma all_matches_lower:
  "0 < mlen (body pat) \<Longrightarrow> \<forall>b \<in> set (map fst (all_matches pat xs pv i)). i \<le> b"
proof (induction pat xs pv i rule: all_matches.induct)
  case (1 pat xs pv i)
  show ?case
  proof (cases "exec_from pat xs pv i")
    case None
    then show ?thesis by (simp add: all_matches.simps)
  next
    case (Some bm)
    obtain b mt where bm: "bm = (b, mt)" by (cases bm)
    from Some bm have lt: "length (rest mt) < length xs"
      using exec_from_consumes [of pat xs pv i b mt] "1.prems" by simp
    from Some bm have p: "i \<le> b" "b < pos mt"
      using exec_from_pos [of pat xs pv i b mt] "1.prems" by simp_all
    have u: "all_matches pat xs pv i = (b, mt) # all_matches pat (rest mt) (prev mt) (pos mt)"
      using Some bm lt by (subst all_matches.simps) simp
    from "1.IH" [OF Some [unfolded bm] refl lt "1.prems"] p show ?thesis
      unfolding u by auto
  qed
qed

lemma all_matches_sorted:
  "0 < mlen (body pat) \<Longrightarrow> sorted_wrt (<) (map fst (all_matches pat xs pv i))"
proof (induction pat xs pv i rule: all_matches.induct)
  case (1 pat xs pv i)
  show ?case
  proof (cases "exec_from pat xs pv i")
    case None
    then show ?thesis by (simp add: all_matches.simps)
  next
    case (Some bm)
    obtain b mt where bm: "bm = (b, mt)" by (cases bm)
    from Some bm have lt: "length (rest mt) < length xs"
      using exec_from_consumes [of pat xs pv i b mt] "1.prems" by simp
    from Some bm have p: "b < pos mt"
      using exec_from_pos [of pat xs pv i b mt] "1.prems" by simp
    have u: "all_matches pat xs pv i = (b, mt) # all_matches pat (rest mt) (prev mt) (pos mt)"
      using Some bm lt by (subst all_matches.simps) simp
    from "1.IH" [OF Some [unfolded bm] refl lt "1.prems"] p
      all_matches_lower [OF "1.prems", of "rest mt" "prev mt" "pos mt"]
    show ?thesis unfolding u by auto
  qed
qed

lemma strategy_step_full: "15 \<le> length st \<Longrightarrow> foldl (strategy_step now pat tx) st ms = st"
  by (induction ms) (simp_all add: strategy_step_def)

lemma strategy_step_accept:
  "length st < 15 \<Longrightarrow> strategy_step now pat tx st mt = accept now (candidate pat tx mt) st"
  by (simp add: strategy_step_def)

lemma exec_loop_fold:
  "0 < mlen (body pat) \<Longrightarrow>
   exec_loop now pat tx xs pv i st
     = Some (foldl (strategy_step now pat tx) st (map snd (all_matches pat xs pv i)))"
proof (induction now pat tx xs pv i st rule: exec_loop.induct)
  case (1 now pat tx xs pv i st)
  show ?case
  proof (cases "exec_from pat xs pv i")
    case None
    then show ?thesis by (simp add: exec_loop.simps all_matches.simps)
  next
    case (Some bm)
    obtain b mt where bm: "bm = (b, mt)" by (cases bm)
    from Some bm have lt: "length (rest mt) < length xs"
      using exec_from_consumes [of pat xs pv i b mt] "1.prems" by simp
    have u: "all_matches pat xs pv i = (b, mt) # all_matches pat (rest mt) (prev mt) (pos mt)"
      using Some bm lt by (subst all_matches.simps) simp
    show ?thesis
    proof (cases "length st < 15")
      case True
      have "exec_loop now pat tx xs pv i st =
            exec_loop now pat tx (rest mt) (prev mt) (pos mt) (accept now (candidate pat tx mt) st)"
        using Some bm True lt by (subst exec_loop.simps) simp
      also have "\<dots> = Some (foldl (strategy_step now pat tx) (accept now (candidate pat tx mt) st)
            (map snd (all_matches pat (rest mt) (prev mt) (pos mt))))"
        using "1.IH" [OF Some [unfolded bm] refl True lt "1.prems"] .
      finally show ?thesis unfolding u using True by (simp add: strategy_step_accept)
    next
      case False
      have "exec_loop now pat tx xs pv i st = Some st"
        using Some bm False by (subst exec_loop.simps) simp
      with False show ?thesis by (simp add: strategy_step_full)
    qed
  qed
qed

lemma fallback_loop_fold: "fallback_loop now lines st = foldl (fallback_step now) st lines"
proof (induction lines arbitrary: st)
  case Nil
  then show ?case by simp
next
  case (Cons line lines)
  have full: "10 \<le> length s \<Longrightarrow> foldl (fallback_step now) s ls = s" for s ls
    by (induction ls) (simp_all add: fallback_step_def)
  show ?case
  proof (cases "10 \<le> length st")
    case True
    then show ?thesis using full [of st "line # lines"] by simp
  next
    case False
    then have "fallback_step now st line = fallback_line now line st"
      by (simp add: fallback_step_def)
    with False show ?thesis using Cons.IH [of "fallback_line now line st"] by simp
  qed
qed

text \<open>
  C10. The result of \<open>parseStockData\<close> is \<open>s1 @ a2 @ a3 @ a4 @ fb\<close>: \<open>s1\<close> is what
  the first pattern accepts, \<open>a2\<close>, \<open>a3\<close> and \<open>a4\<close> what the second, third and
  fourth add to it, and \<open>fb\<close> what the fallback adds to the output of the
  strategy pass, which so is a prefix of the result. Each pattern handles its
  matches one by one, in the order of \<open>exec\<close>, and their start indices increase
  strictly; the fallback handles the lines one by one, in their order. Each step
  leaves the list as it is or adds one record at its end.
\<close>

theorem parse_acceptance_order:
  "\<exists>s1 a2 a3 a4 fb.
      strategy_pass now tx patterns [] = Some (s1 @ a2 @ a3 @ a4)
    \<and> parseStockData now tx = Some (s1 @ a2 @ a3 @ a4 @ fb)
    \<and> s1 = foldl (strategy_step now pattern1 tx) [] (map snd (all_matches pattern1 tx None 0))
    \<and> s1 @ a2 = foldl (strategy_step now pattern2 tx) s1 (map snd (all_matches pattern2 tx None 0))
    \<and> s1 @ a2 @ a3
        = foldl (strategy_step now pattern3 tx) (s1 @ a2) (map snd (all_matches pattern3 tx None 0))
    \<and> s1 @ a2 @ a3 @ a4
        = foldl (strategy_step now pattern4 tx) (s1 @ a2 @ a3)
            (map snd (all_matches pattern4 tx None 0))
    \<and> s1 @ a2 @ a3 @ a4 @ fb
        = (if length (s1 @ a2 @ a3 @ a4) < 5
           then foldl (fallback_step now) (s1 @ a2 @ a3 @ a4) (split_nl tx)
           else s1 @ a2 @ a3 @ a4)
    \<and> (\<forall>pat \<in> set patterns. sorted_wrt (<) (map fst (all_matches pat tx None 0)))
    \<and> (\<forall>cand st. \<exists>ext. accept now cand st = st @ ext \<and> length ext \<le> 1)
    \<and> (\<forall>line st. \<exists>ext. fallback_line now line st = st @ ext \<and> length ext \<le> 1)"
proof -
  define s1 where "s1 = foldl (strategy_step now pattern1 tx) [] (map snd (all_matches pattern1 tx None 0))"
  have e1: "exec_loop now pattern1 tx tx None 0 [] = Some s1"
    unfolding s1_def by (rule exec_loop_fold) (rule mlen_patterns)
  define t2 where "t2 = foldl (strategy_step now pattern2 tx) s1 (map snd (all_matches pattern2 tx None 0))"
  have e2: "exec_loop now pattern2 tx tx None 0 s1 = Some t2"
    unfolding t2_def by (rule exec_loop_fold) (rule mlen_patterns)
  define t3 where "t3 = foldl (strategy_step now pattern3 tx) t2 (map snd (all_matches pattern3 tx None 0))"
  have e3: "exec_loop now pattern3 tx tx None 0 t2 = Some t3"
    unfolding t3_def by (rule exec_loop_fold) (rule mlen_patterns)
  define t4 where "t4 = foldl (strategy_step now pattern4 tx) t3 (map snd (all_matches pattern4 tx None 0))"
  have e4: "exec_loop now pattern4 tx tx None 0 t3 = Some t4"
    unfolding t4_def by (rule exec_loop_fold) (rule mlen_patterns)
  from exec_loop_append [OF e2] obtain a2 where a2: "t2 = s1 @ a2" by auto
  from exec_loop_append [OF e3] obtain a3 where a3: "t3 = t2 @ a3" by auto
  from exec_loop_append [OF e4] obtain a4 where a4: "t4 = t3 @ a4" by auto
  have sp: "strategy_pass now tx patterns [] = Some t4"
    using e1 e2 e3 e4 by (simp add: patterns_def)
  define out where "out = (if length t4 < 5 then foldl (fallback_step now) t4 (split_nl tx) else t4)"
  have p: "parseStockData now tx = Some out"
    using sp by (simp add: parseStockData_def out_def fallback_loop_fold)
  have "\<exists>fb. out = t4 @ fb"
  proof (cases "length t4 < 5")
    case True
    then show ?thesis
      using fallback_loop_append [of now "split_nl tx" t4]
      by (simp add: out_def fallback_loop_fold)
  next
    case False
    then show ?thesis by (simp add: out_def)
  qed
  then obtain fb where fb: "out = t4 @ fb" by blast
  have srt: "\<forall>pat \<in> set patterns. sorted_wrt (<) (map fst (all_matches pat tx None 0))"
    by (auto simp: patterns_def all_matches_sorted mlen_patterns)
  have "strategy_pass now tx patterns [] = Some (s1 @ a2 @ a3 @ a4)"
    using sp a2 a3 a4 by simp
  moreover have "parseStockData now tx = Some (s1 @ a2 @ a3 @ a4 @ fb)"
    using p fb a2 a3 a4 by simp
  moreover have "s1 @ a2 = foldl (strategy_step now pattern2 tx) s1 (map snd (all_matches pattern2 tx None 0))"
    using a2 t2_def by simp
  moreover have "s1 @ a2 @ a3
        = foldl (strategy_step now pattern3 tx) (s1 @ a2) (map snd (all_matches pattern3 tx None 0))"
    using a2 a3 t3_def by simp
  moreover have "s1 @ a2 @ a3 @ a4
        = foldl (strategy_step now pattern4 tx) (s1 @ a2 @ a3)
            (map snd (all_matches pattern4 tx None 0))"
    using a2 a3 a4 t4_def by simp
  moreover have "s1 @ a2 @ a3 @ a4 @ fb
        = (if length (s1 @ a2 @ a3 @ a4) < 5
           then foldl (fallback_step now) (s1 @ a2 @ a3 @ a4) (split_nl tx)
           else s1 @ a2 @ a3 @ a4)"
  proof -
    have x: "s1 @ a2 @ a3 @ a4 = t4" using a2 a3 a4 by simp
    have y: "s1 @ a2 @ a3 @ a4 @ fb = out" using fb a2 a3 a4 by simp
    show ?thesis unfolding y x by (rule out_def)
  qed
  ultimately show ?thesis
    using s1_def srt accept_append [of now] fallback_line_append [of now] by blast
qed

theorem parse_acceptance_order_witness:
  "pattern1 \<in> set patterns
   \<and> sorted_wrt (<) (map fst (all_matches pattern1 (js ''XYZ (Example Corp) ... $1.5 billion'') None 0))
   \<and> (\<exists>s1 a2 a3 a4 fb.
         parseStockData now0 (js ''XYZ (Example Corp) ... $1.5 billion'') = Some (s1 @ a2 @ a3 @ a4 @ fb)
       \<and> s1 @ a2 @ a3 @ a4 @ fb
           = [\<lparr>ticker = js ''XYZ'', company = js ''Example Corp'', marketCap = js ''$1.5B'',
               extractedAt = now0 0\<rparr>])"
proof -
  let ?tx = "js ''XYZ (Example Corp) ... $1.5 billion''"
  have m: "pattern1 \<in> set patterns" by (simp add: patterns_def)
  from parse_acceptance_order [of now0 ?tx] obtain s1 a2 a3 a4 fb where
    p: "parseStockData now0 ?tx = Some (s1 @ a2 @ a3 @ a4 @ fb)"
    and s: "\<forall>pat \<in> set patterns. sorted_wrt (<) (map fst (all_matches pat ?tx None 0))"
    by blast
  from s m have "sorted_wrt (<) (map fst (all_matches pattern1 ?tx None 0))" by blast
  moreover from p xyz_parse [of now0] have "s1 @ a2 @ a3 @ a4 @ fb
           = [\<lparr>ticker = js ''XYZ'', company = js ''Example Corp'', marketCap = js ''$1.5B'',
               extractedAt = now0 0\<rparr>]" by simp
  ultimately show ?thesis using m p by blast
qed

end
